theory Spec2Isabelle
  imports Main "HOL-Library.AList"
begin

section \<open>The response cache of \<open>src/services/cacheService.ts\<close>\<close>

text \<open>
  The class \<open>CacheService\<close> keeps one private \<open>Map<string, CacheEntry<any>>\<close> and a
  private, never reassigned \<open>config\<close> object. Every method is embedded as a function
  that takes the values \<open>Date.now()\<close> returns during the call, in the order the method
  reads the clock, and the cache before the call, and returns the method's result together
  with the cache after the call. The \<open>console.log\<close> lines carry no control flow and are
  left out.

  Times are JavaScript numbers holding whole milliseconds; all sums formed here are far
  below \<open>2^53\<close>, where the double arithmetic of the source is exact, so they are \<open>int\<close>.
\<close>

subsection \<open>Strings and key derivation\<close>

text \<open>
  A \<open>string\<close> stands for a JavaScript string whose UTF-16 code units all lie in
  \<open>U+0000 .. U+00FF\<close>; a \<open>char\<close> is one such code unit. On that range
  \<open>String.prototype.toLowerCase\<close> works unit by unit: it adds 32 to \<open>A .. Z\<close>
  (65 .. 90) and to the accented capitals 192 .. 222 other than the multiplication sign 215,
  and leaves every other unit alone. The regular expression class \<open>\s\<close> holds, on that
  range, TAB, LF, VT, FF, CR, SPACE and the no-break space 160.
\<close>

definition isWhiteSpace :: "char \<Rightarrow> bool" where
  "isWhiteSpace c = (of_char c \<in> {9, 10, 11, 12, 13, 32, 160 :: nat})"

definition toLowerCase_char :: "char \<Rightarrow> char" where
  "toLowerCase_char c =
     (let n = of_char c :: nat in
      if (65 \<le> n \<and> n \<le> 90) \<or> (192 \<le> n \<and> n \<le> 222 \<and> n \<noteq> 215)
      then char_of (n + 32) else c)"

definition toLowerCase :: "string \<Rightarrow> string" where
  "toLowerCase s = map toLowerCase_char s"

text \<open>
  \<open>s.replace(/\s+/g, '_')\<close>: scanning from the left, every maximal run of white space is
  replaced by one underscore, every other unit is copied.
\<close>

function replace_ws :: "string \<Rightarrow> string" where
  "replace_ws [] = []"
| "replace_ws (c # cs) =
     (if isWhiteSpace c then CHR ''_'' # replace_ws (dropWhile isWhiteSpace cs)
      else c # replace_ws cs)"
  by pat_completeness auto
termination
  by (relation "measure length") (auto simp: le_imp_less_Suc length_dropWhile_le)

record location =
  city :: string
  country :: string

definition generateKey :: "string \<Rightarrow> location \<Rightarrow> string" where
  "generateKey type loc =
     replace_ws (toLowerCase (type @ ''_'' @ city loc @ ''_'' @ country loc))"

subsection \<open>Entries, configuration and the cache\<close>

record 'a CacheEntry =
  data :: 'a
  timestamp :: int
  expiresAt :: int

record CacheConfig =
  weatherTTL :: int
  newsTTL :: int
  satelliteTTL :: int
  criticalIssuesTTL :: int
  environmentalDataTTL :: int

definition config :: CacheConfig where
  "config = \<lparr> weatherTTL = 10 * 60 * 1000,
              newsTTL = 30 * 60 * 1000,
              satelliteTTL = 60 * 60 * 1000,
              criticalIssuesTTL = 15 * 60 * 1000,
              environmentalDataTTL = 5 * 60 * 1000 \<rparr>"

text \<open>
  A JavaScript \<open>Map\<close> keeps its entries in insertion order with one entry per key. It is
  an association list: \<open>Map.get\<close> is \<open>map_of\<close>, \<open>Map.set\<close> is \<open>AList.update\<close>
  (an existing key keeps its place, a new one goes to the end), \<open>Map.delete\<close> is
  \<open>AList.delete\<close>, \<open>Map.size\<close> is \<open>length\<close> and \<open>Map.clear\<close> leaves \<open>[]\<close>.
  \<open>wf_cache\<close> is the one-entry-per-key property of a \<open>Map\<close>.

  The payload type \<open>T\<close> of \<open>set<T>\<close> and \<open>get<T>\<close> does not exclude \<open>null\<close>, and the
  result type of \<open>get\<close> is \<open>T | null\<close>. A payload is therefore an \<open>'a option\<close> whose
  \<open>None\<close> is the value \<open>null\<close>, and the same type is the result type of \<open>get\<close>.
\<close>

type_synonym 'a cache = "(string \<times> 'a option CacheEntry) list"

definition wf_cache :: "'a cache \<Rightarrow> bool" where
  "wf_cache c = distinct (map fst c)"

definition isValid :: "int \<Rightarrow> 'a CacheEntry \<Rightarrow> bool" where
  "isValid now entry = (now < expiresAt entry)"

definition getTTL :: "string \<Rightarrow> int" where
  "getTTL type =
     (if type = ''weather'' then weatherTTL config
      else if type = ''news'' then newsTTL config
      else if type = ''satellite'' then satelliteTTL config
      else if type = ''criticalIssues'' then criticalIssuesTTL config
      else if type = ''environmental_data'' then environmentalDataTTL config
      else 5 * 60 * 1000)"

text \<open>
  \<open>get\<close> reads the clock once, inside \<open>isValid\<close>, and only when the key has an entry.
  On a miss it returns \<open>null\<close>; on a hit it returns \<open>entry.data\<close> itself, with no
  wrapper, so a hit on a stored \<open>null\<close> gives the caller the same value as a miss.
\<close>

definition get :: "string \<Rightarrow> location \<Rightarrow> int \<Rightarrow> 'a cache \<Rightarrow> 'a option \<times> 'a cache" where
  "get type loc now c =
     (let key = generateKey type loc in
      case map_of c key of
        None \<Rightarrow> (None, AList.delete key c)
      | Some entry \<Rightarrow>
          if \<not> isValid now entry then (None, AList.delete key c)
          else (data entry, c))"

text \<open>
  \<open>set\<close> reads the clock twice while it builds the entry: \<open>t_stamp\<close> is the value of the
  first \<open>Date.now()\<close> (field \<open>timestamp\<close>), \<open>t_exp\<close> that of the second (field
  \<open>expiresAt\<close>).
\<close>

definition set_entry ::
  "string \<Rightarrow> location \<Rightarrow> 'a option \<Rightarrow> int \<Rightarrow> int \<Rightarrow> 'a cache \<Rightarrow> 'a cache" where
  "set_entry type loc d t_stamp t_exp c =
     (let key = generateKey type loc;
          ttl = getTTL type;
          entry = \<lparr> data = d, timestamp = t_stamp, expiresAt = t_exp + ttl \<rparr>
      in AList.update key entry c)"

text \<open>
  \<open>cleanup\<close> walks \<open>this.cache.entries()\<close> and deletes the entry it is looking at when
  that entry has expired. Deleting the current entry does not disturb a \<open>Map\<close> iterator,
  so the walk visits exactly the entries present when it started.
\<close>

fun cleanup_loop ::
  "int \<Rightarrow> (string \<times> 'a option CacheEntry) list \<Rightarrow> 'a cache \<Rightarrow> 'a cache" where
  "cleanup_loop now [] c = c"
| "cleanup_loop now ((key, entry) # rest) c =
     cleanup_loop now rest (if now \<ge> expiresAt entry then AList.delete key c else c)"

definition cleanup :: "int \<Rightarrow> 'a cache \<Rightarrow> 'a cache" where
  "cleanup now c = cleanup_loop now c c"

definition clear :: "'a cache \<Rightarrow> 'a cache" where
  "clear c = []"

record Stats =
  totalEntries :: nat
  validEntries :: nat
  expiredEntries :: nat

fun getStats_loop :: "int \<Rightarrow> 'a CacheEntry list \<Rightarrow> nat \<times> nat \<Rightarrow> nat \<times> nat" where
  "getStats_loop now [] acc = acc"
| "getStats_loop now (entry # rest) (validE, expiredE) =
     getStats_loop now rest
       (if now < expiresAt entry then (validE + 1, expiredE) else (validE, expiredE + 1))"

definition getStats :: "int \<Rightarrow> 'a cache \<Rightarrow> Stats \<times> 'a cache" where
  "getStats now c =
     (let (validE, expiredE) = getStats_loop now (map snd c) (0, 0)
      in (\<lparr> totalEntries = length c, validEntries = validE, expiredEntries = expiredE \<rparr>, c))"

subsection \<open>Sequences of calls\<close>

text \<open>
  A call of one of the public methods, with the clock values it reads. \<open>exec\<close> performs
  the call on the cache and \<open>run\<close> performs a list of calls from left to right.
  \<open>valid_at key now c\<close> says that \<open>key\<close> has an entry in \<open>c\<close> that is valid at \<open>now\<close>;
  \<open>is_set_for key\<close> recognises a \<open>set\<close> call that writes \<open>key\<close>.
\<close>

datatype 'a call =
    Get string location int
  | Set string location "'a option" int int
  | Cleanup int
  | Clear
  | GetStats int

fun exec :: "'a call \<Rightarrow> 'a cache \<Rightarrow> 'a cache" where
  "exec (Get type loc now) c = snd (get type loc now c)"
| "exec (Set type loc d t_stamp t_exp) c = set_entry type loc d t_stamp t_exp c"
| "exec (Cleanup now) c = cleanup now c"
| "exec Clear c = clear c"
| "exec (GetStats now) c = snd (getStats now c)"

fun run :: "'a call list \<Rightarrow> 'a cache \<Rightarrow> 'a cache" where
  "run [] c = c"
| "run (x # xs) c = run xs (exec x c)"

fun is_set_for :: "string \<Rightarrow> 'a call \<Rightarrow> bool" where
  "is_set_for key (Set type loc d t_stamp t_exp) = (generateKey type loc = key)"
| "is_set_for key other = False"

definition valid_at :: "string \<Rightarrow> int \<Rightarrow> 'a cache \<Rightarrow> bool" where
  "valid_at key now c = (case map_of c key of None \<Rightarrow> False | Some entry \<Rightarrow> isValid now entry)"

subsection \<open>Predicates used to state the properties\<close>

text \<open>
  A white-space run is a non-empty string of white-space units, that is, a string the
  pattern \<open>\s+\<close> matches as a whole.
\<close>

definition whitespace_run :: "string \<Rightarrow> bool" where
  "whitespace_run ws = (ws \<noteq> [] \<and> list_all isWhiteSpace ws)"

text \<open>
  \<open>run_is_maximal a b\<close> says that a white-space run standing between \<open>a\<close> and \<open>b\<close>
  cannot be extended: \<open>a\<close> does not end and \<open>b\<close> does not begin with white space.
  \<open>no_whitespace s\<close> says that \<open>s\<close> holds no white-space unit.
\<close>

definition run_is_maximal :: "string \<Rightarrow> string \<Rightarrow> bool" where
  "run_is_maximal a b =
     ((a = [] \<or> \<not> isWhiteSpace (last a)) \<and> (b = [] \<or> \<not> isWhiteSpace (hd b)))"

definition no_whitespace :: "string \<Rightarrow> bool" where
  "no_whitespace s = list_all (\<lambda>ch. \<not> isWhiteSpace ch) s"

section \<open>Auxiliary facts\<close>

subsection \<open>Lower-casing and white-space replacement\<close>

lemma of_char_toLowerCase_char:
  "of_char (toLowerCase_char c) =
     (let n = of_char c :: nat in
      if (65 \<le> n \<and> n \<le> 90) \<or> (192 \<le> n \<and> n \<le> 222 \<and> n \<noteq> 215) then n + 32 else n)"
  by (auto simp: toLowerCase_char_def Let_def)

lemma isWhiteSpace_toLowerCase_char [simp]:
  "isWhiteSpace (toLowerCase_char c) = isWhiteSpace c"
  unfolding isWhiteSpace_def of_char_toLowerCase_char by (auto simp: Let_def)

lemma toLowerCase_char_whitespace: "isWhiteSpace c \<Longrightarrow> toLowerCase_char c = c"
  by (auto simp: isWhiteSpace_def toLowerCase_char_def Let_def)

lemma toLowerCase_char_idem [simp]: "toLowerCase_char (toLowerCase_char c) = toLowerCase_char c"
proof -
  have "(of_char (toLowerCase_char (toLowerCase_char c)) :: nat) = of_char (toLowerCase_char c)"
    unfolding of_char_toLowerCase_char[of "toLowerCase_char c"]
    unfolding of_char_toLowerCase_char[of c]
    by (auto simp: Let_def)
  then show ?thesis by (metis char_of_char)
qed

lemma toLowerCase_append [simp]: "toLowerCase (a @ b) = toLowerCase a @ toLowerCase b"
  by (simp add: toLowerCase_def)

lemma toLowerCase_idem [simp]: "toLowerCase (toLowerCase s) = toLowerCase s"
  by (simp add: toLowerCase_def)

lemma underscore_not_space [simp]: "\<not> isWhiteSpace CHR ''_''"
  by (simp add: isWhiteSpace_def)

lemma toLowerCase_char_underscore [simp]: "toLowerCase_char CHR ''_'' = CHR ''_''"
  by (simp add: toLowerCase_char_def)

lemma toLowerCase_Nil [simp]: "toLowerCase [] = []"
  by (simp add: toLowerCase_def)

lemma toLowerCase_Cons [simp]: "toLowerCase (c # s) = toLowerCase_char c # toLowerCase s"
  by (simp add: toLowerCase_def)

lemma replace_ws_sep:
  "\<not> isWhiteSpace s \<Longrightarrow> replace_ws (a @ s # b) = replace_ws a @ s # replace_ws b"
proof (induction a rule: replace_ws.induct)
  case 1
  then show ?case by simp
next
  case (2 c cs)
  show ?case
  proof (cases "isWhiteSpace c")
    case False
    with 2 show ?thesis by simp
  next
    case True
    have "dropWhile isWhiteSpace (cs @ s # b) = dropWhile isWhiteSpace cs @ s # b"
      using 2(3) by (induction cs) auto
    with True 2 show ?thesis by simp
  qed
qed

lemma generateKey_split:
  "generateKey type loc =
     replace_ws (toLowerCase type) @ ''_'' @ replace_ws (toLowerCase (city loc)) @ ''_'' @
     replace_ws (toLowerCase (country loc))"
  by (simp add: generateKey_def replace_ws_sep)

lemma replace_ws_no_space: "c \<in> set (replace_ws s) \<Longrightarrow> \<not> isWhiteSpace c"
  by (induction s rule: replace_ws.induct) (auto split: if_splits)

lemma dropWhile_run:
  "ws \<noteq> [] \<Longrightarrow> \<forall>w \<in> set ws. P w \<Longrightarrow> dropWhile P (ws @ b) = dropWhile P b"
  by (induction ws) auto

lemma replace_ws_run_head:
  assumes "ws \<noteq> []" "\<forall>w \<in> set ws. isWhiteSpace w"
  shows "replace_ws (ws @ b) = CHR ''_'' # replace_ws (dropWhile isWhiteSpace b)"
proof -
  from assms obtain w ws' where ws: "ws = w # ws'" by (cases ws) auto
  with assms have "isWhiteSpace w" "\<forall>w \<in> set ws'. isWhiteSpace w" by auto
  then have "dropWhile isWhiteSpace (ws' @ b) = dropWhile isWhiteSpace b"
    by (induction ws') auto
  with ws \<open>isWhiteSpace w\<close> show ?thesis by simp
qed

lemma replace_ws_run:
  assumes "ws \<noteq> []" "\<forall>w \<in> set ws. isWhiteSpace w" "vs \<noteq> []" "\<forall>w \<in> set vs. isWhiteSpace w"
  shows "replace_ws (a @ ws @ b) = replace_ws (a @ vs @ b)"
proof (induction a rule: replace_ws.induct)
  case 1
  show ?case using assms by (simp add: replace_ws_run_head)
next
  case (2 c cs)
  show ?case
  proof (cases "isWhiteSpace c")
    case False
    with 2 show ?thesis by simp
  next
    case True
    show ?thesis
    proof (cases "\<forall>x \<in> set cs. isWhiteSpace x")
      case all: True
      then have "dropWhile isWhiteSpace (cs @ ws @ b) = dropWhile isWhiteSpace b"
                "dropWhile isWhiteSpace (cs @ vs @ b) = dropWhile isWhiteSpace b"
        using assms by (simp_all add: dropWhile_append dropWhile_run)
      with True show ?thesis by simp
    next
      case False
      then have "dropWhile isWhiteSpace (cs @ ws @ b) = dropWhile isWhiteSpace cs @ ws @ b"
                "dropWhile isWhiteSpace (cs @ vs @ b) = dropWhile isWhiteSpace cs @ vs @ b"
        by (auto simp: dropWhile_append)
      with True 2 show ?thesis by simp
    qed
  qed
qed

lemma whitespace_run_toLowerCase: "whitespace_run ws \<Longrightarrow> whitespace_run (toLowerCase ws)"
  by (simp add: whitespace_run_def toLowerCase_def list_all_iff)

lemma normalise_run:
  assumes "whitespace_run ws" "whitespace_run vs"
  shows "replace_ws (toLowerCase (a @ ws @ b)) = replace_ws (toLowerCase (a @ vs @ b))"
proof -
  from assms have "whitespace_run (toLowerCase ws)" "whitespace_run (toLowerCase vs)"
    by (simp_all add: whitespace_run_toLowerCase)
  then show ?thesis
    by (simp add: whitespace_run_def list_all_iff replace_ws_run)
qed

lemma ascii_letter_lower:
  assumes "65 \<le> n" "n \<le> 90"
  shows "toLowerCase_char (char_of (n::nat)) = char_of (n + 32)"
    and "toLowerCase_char (char_of (n + 32)) = char_of (n + 32)"
  using assms by (simp_all add: toLowerCase_char_def Let_def)

lemma norm_examples:
  "replace_ws (toLowerCase ''New York'') = ''new_york''"
  "replace_ws (toLowerCase ''new   york'') = ''new_york''"
  "replace_ws (toLowerCase ''US'') = ''us''"
  "replace_ws (toLowerCase ''us'') = ''us''"
  "replace_ws (toLowerCase ''New York City'') = ''new_york_city''"
  "replace_ws (toLowerCase ''a b'') = ''a_b''"
  "replace_ws (toLowerCase ''b c'') = ''b_c''"
  "replace_ws (toLowerCase ''a'') = ''a''"
  "replace_ws (toLowerCase ''c'') = ''c''"
  "replace_ws (toLowerCase ''k'') = ''k''"
  "replace_ws (toLowerCase ''paris'') = ''paris''"
  "replace_ws (toLowerCase ''data paris'') = ''data_paris''"
  "replace_ws (toLowerCase ''environmental'') = ''environmental''"
  "replace_ws (toLowerCase ''environmental_data'') = ''environmental_data''"
  by code_simp+

lemma last_dropWhile: "dropWhile P xs \<noteq> [] \<Longrightarrow> last (dropWhile P xs) = last xs"
  by (induction xs) (auto split: if_splits)

lemma dropWhile_no_head: "b = [] \<or> \<not> P (hd b) \<Longrightarrow> dropWhile P b = b"
  by (cases b) auto

lemma replace_ws_maximal_run:
  assumes "ws \<noteq> []" "\<forall>w \<in> set ws. isWhiteSpace w" "b = [] \<or> \<not> isWhiteSpace (hd b)"
  shows "a = [] \<or> \<not> isWhiteSpace (last a) \<Longrightarrow>
         replace_ws (a @ ws @ b) = replace_ws a @ CHR ''_'' # replace_ws b"
proof (induction a rule: replace_ws.induct)
  case 1
  show ?case using assms by (simp add: replace_ws_run_head dropWhile_no_head)
next
  case (2 c cs)
  show ?case
  proof (cases "isWhiteSpace c")
    case False
    from 2(3) have "cs = [] \<or> \<not> isWhiteSpace (last cs)" by (auto split: if_splits)
    with False 2(2) show ?thesis by simp
  next
    case True
    with 2(3) have ne: "cs \<noteq> []" and l: "\<not> isWhiteSpace (last cs)"
      by (auto split: if_splits)
    then have nall: "\<not> (\<forall>x \<in> set cs. isWhiteSpace x)" using last_in_set by blast
    then have d: "dropWhile isWhiteSpace (cs @ ws @ b) = dropWhile isWhiteSpace cs @ ws @ b"
      by (auto simp: dropWhile_append)
    from nall have dne: "dropWhile isWhiteSpace cs \<noteq> []" by (simp add: dropWhile_eq_Nil_conv)
    with l have "\<not> isWhiteSpace (last (dropWhile isWhiteSpace cs))"
      by (simp add: last_dropWhile)
    with 2(1)[OF True] have "replace_ws (dropWhile isWhiteSpace cs @ ws @ b) =
        replace_ws (dropWhile isWhiteSpace cs) @ CHR ''_'' # replace_ws b" by simp
    with True d show ?thesis by simp
  qed
qed

lemma replace_ws_id: "no_whitespace s \<Longrightarrow> replace_ws s = s"
  unfolding no_whitespace_def by (induction s) auto

lemma no_whitespace_toLowerCase [simp]: "no_whitespace (toLowerCase s) = no_whitespace s"
  by (simp add: no_whitespace_def toLowerCase_def list_all_iff)

lemma no_whitespace_append [simp]:
  "no_whitespace (a @ b) = (no_whitespace a \<and> no_whitespace b)"
  by (simp add: no_whitespace_def)

lemma normalise_maximal_run:
  assumes "whitespace_run ws" "run_is_maximal a b"
  shows "replace_ws (toLowerCase (a @ ws @ b)) = replace_ws (toLowerCase (a @ ''_'' @ b))"
proof -
  from assms(1) have w: "toLowerCase ws \<noteq> []" "\<forall>w \<in> set (toLowerCase ws). isWhiteSpace w"
    using whitespace_run_toLowerCase[of ws] by (simp_all add: whitespace_run_def list_all_iff)
  from assms(2) have la: "toLowerCase a = [] \<or> \<not> isWhiteSpace (last (toLowerCase a))"
    by (cases "a = []") (simp_all add: run_is_maximal_def toLowerCase_def last_map)
  from assms(2) have hb: "toLowerCase b = [] \<or> \<not> isWhiteSpace (hd (toLowerCase b))"
    by (cases b) (simp_all add: run_is_maximal_def)
  have "replace_ws (toLowerCase a @ toLowerCase ws @ toLowerCase b) =
          replace_ws (toLowerCase a) @ CHR ''_'' # replace_ws (toLowerCase b)"
    using w hb la by (rule replace_ws_maximal_run)
  then show ?thesis by (simp add: replace_ws_sep)
qed

lemma generateKey_no_whitespace:
  assumes "no_whitespace type" "no_whitespace (city loc)" "no_whitespace (country loc)"
  shows "generateKey type loc =
           toLowerCase type @ ''_'' @ toLowerCase (city loc) @ ''_'' @ toLowerCase (country loc)"
  using assms by (simp add: generateKey_split replace_ws_id)

lemma getTTL_pos: "0 < getTTL type"
  by (simp add: getTTL_def config_def)

lemma getTTL_values:
  "getTTL ''weather'' = 600000" "getTTL ''news'' = 1800000" "getTTL ''satellite'' = 3600000"
  "getTTL ''criticalIssues'' = 900000" "getTTL ''environmental_data'' = 300000"
  by (simp_all add: getTTL_def config_def)

subsection \<open>The cache operations\<close>

lemma wf_cache_Nil: "wf_cache []"
  by (simp add: wf_cache_def)

lemma wf_cache_set_entry: "wf_cache c \<Longrightarrow> wf_cache (set_entry type loc d t1 t2 c)"
  by (simp add: wf_cache_def set_entry_def Let_def distinct_update)

lemma wf_cache_delete: "wf_cache c \<Longrightarrow> wf_cache (AList.delete key c)"
  by (simp add: wf_cache_def distinct_delete)

lemma wf_cache_get: "wf_cache c \<Longrightarrow> wf_cache (snd (get type loc now c))"
  by (auto simp: get_def Let_def wf_cache_delete split: option.splits)

lemma map_of_set_entry:
  "map_of (set_entry type loc d t1 t2 c) =
     (map_of c)(generateKey type loc \<mapsto>
        \<lparr> data = d, timestamp = t1, expiresAt = t2 + getTTL type \<rparr>)"
  by (simp add: set_entry_def Let_def update_conv')

lemma get_hit:
  "map_of c (generateKey type loc) = Some e \<Longrightarrow> now < expiresAt e \<Longrightarrow>
   get type loc now c = (data e, c)"
  by (simp add: get_def Let_def isValid_def)

lemma get_stale:
  "map_of c (generateKey type loc) = Some e \<Longrightarrow> expiresAt e \<le> now \<Longrightarrow>
   get type loc now c = (None, AList.delete (generateKey type loc) c)"
  by (simp add: get_def Let_def isValid_def)

lemma get_missing:
  "map_of c (generateKey type loc) = None \<Longrightarrow> get type loc now c = (None, c)"
proof -
  assume a: "map_of c (generateKey type loc) = None"
  then have "generateKey type loc \<notin> fst ` set c"
    by (simp add: map_of_eq_None_iff)
  then have "AList.delete (generateKey type loc) c = c" by simp
  with a show ?thesis by (simp add: get_def Let_def)
qed

lemma length_delete_present:
  "distinct (map fst c) \<Longrightarrow> map_of c key = Some e \<Longrightarrow>
   Suc (length (AList.delete key c)) = length c"
proof (induction c)
  case Nil
  then show ?case by simp
next
  case (Cons p c)
  show ?case
  proof (cases "fst p = key")
    case True
    with Cons.prems have "key \<notin> fst ` set c" by auto
    then have "AList.delete key c = c" by simp
    with True show ?thesis by (cases p) simp
  next
    case False
    with Cons show ?thesis by (cases p) auto
  qed
qed

lemma totalEntries_getStats: "totalEntries (fst (getStats now c)) = length c"
  by (simp add: getStats_def Let_def split: prod.splits)

lemma getStats_loop_count:
  "getStats_loop now es (v, x) =
     (v + length (filter (\<lambda>e. now < expiresAt e) es),
      x + length (filter (\<lambda>e. \<not> now < expiresAt e) es))"
  by (induction es arbitrary: v x) auto

lemma getStats_eq:
  "getStats now c =
     (\<lparr> totalEntries = length c,
        validEntries = length (filter (\<lambda>e. now < expiresAt e) (map snd c)),
        expiredEntries = length (filter (\<lambda>e. \<not> now < expiresAt e) (map snd c)) \<rparr>, c)"
  by (simp add: getStats_def getStats_loop_count)

lemma expired_keys_Cons:
  "fst ` {r \<in> set (q # es). expiresAt (snd r) \<le> now} =
     (if expiresAt (snd q) \<le> now then {fst q} else {}) \<union>
     fst ` {r \<in> set es. expiresAt (snd r) \<le> now}"
  by auto

lemma cleanup_loop_filter:
  "cleanup_loop now es c =
     filter (\<lambda>p. fst p \<notin> fst ` {q \<in> set es. expiresAt (snd q) \<le> now}) c"
proof (induction es arbitrary: c)
  case Nil
  then show ?case by simp
next
  case (Cons q es)
  obtain key entry where q: "q = (key, entry)" by (cases q)
  show ?case
  proof (cases "expiresAt entry \<le> now")
    case True
    have "cleanup_loop now (q # es) c = cleanup_loop now es (AList.delete key c)"
      using True q by simp
    also have "\<dots> = filter (\<lambda>p. fst p \<notin> fst ` {q \<in> set es. expiresAt (snd q) \<le> now})
                        (filter (\<lambda>p. key \<noteq> fst p) c)"
      by (simp add: Cons.IH AList.delete_eq case_prod_unfold)
    also have "\<dots> = filter (\<lambda>p. fst p \<notin> fst ` {r \<in> set (q # es). expiresAt (snd r) \<le> now}) c"
      unfolding expired_keys_Cons using True q by (auto intro!: filter_cong)
    finally show ?thesis .
  next
    case False
    have "cleanup_loop now (q # es) c = cleanup_loop now es c"
      using False q by simp
    also have "\<dots> = filter (\<lambda>p. fst p \<notin> fst ` {r \<in> set (q # es). expiresAt (snd r) \<le> now}) c"
      unfolding expired_keys_Cons using False q by (simp add: Cons.IH)
    finally show ?thesis .
  qed
qed

lemma cleanup_filter:
  assumes "wf_cache c"
  shows "cleanup now c = filter (\<lambda>(key, entry). now < expiresAt entry) c"
proof -
  have "fst p \<notin> fst ` {q \<in> set c. expiresAt (snd q) \<le> now} \<longleftrightarrow> now < expiresAt (snd p)"
    if "p \<in> set c" for p
  proof
    assume "fst p \<notin> fst ` {q \<in> set c. expiresAt (snd q) \<le> now}"
    with that show "now < expiresAt (snd p)" by force
  next
    assume v: "now < expiresAt (snd p)"
    show "fst p \<notin> fst ` {q \<in> set c. expiresAt (snd q) \<le> now}"
    proof
      assume "fst p \<in> fst ` {q \<in> set c. expiresAt (snd q) \<le> now}"
      then obtain q where q: "q \<in> set c" "expiresAt (snd q) \<le> now" "fst q = fst p" by auto
      with assms that have "q = p"
        unfolding wf_cache_def by (metis eq_key_imp_eq_value prod.collapse)
      with q v show False by simp
    qed
  qed
  then show ?thesis
    unfolding cleanup_def cleanup_loop_filter
    by (auto intro!: filter_cong simp: case_prod_unfold)
qed

lemma wf_cache_cleanup: "wf_cache c \<Longrightarrow> wf_cache (cleanup now c)"
  by (simp add: cleanup_filter) (simp add: wf_cache_def distinct_map_filter)

lemma wf_cache_exec: "wf_cache c \<Longrightarrow> wf_cache (exec x c)"
  by (cases x)
     (simp_all add: wf_cache_get wf_cache_set_entry wf_cache_cleanup clear_def wf_cache_Nil
        getStats_eq)

lemma wf_cache_run: "wf_cache c \<Longrightarrow> wf_cache (run calls c)"
  by (induction calls arbitrary: c) (simp_all add: wf_cache_exec)

lemma map_of_cleanup_loop:
  "map_of (cleanup_loop now es c) key = None \<or>
   map_of (cleanup_loop now es c) key = map_of c key"
proof (induction es arbitrary: c)
  case Nil
  then show ?case by simp
next
  case (Cons q es)
  obtain k entry where q: "q = (k, entry)" by (cases q)
  show ?case
    using Cons.IH[of c] Cons.IH[of "AList.delete k c"] q
    by (cases "key = k") (auto simp: delete_conv')
qed

lemma get_after_set:
  assumes "generateKey type' loc' = generateKey type loc" "now < t_exp + getTTL type"
  shows "get type' loc' now (set_entry type loc d t_stamp t_exp c) =
           (d, set_entry type loc d t_stamp t_exp c)"
proof -
  have "map_of (set_entry type loc d t_stamp t_exp c) (generateKey type' loc') =
          Some \<lparr> data = d, timestamp = t_stamp, expiresAt = t_exp + getTTL type \<rparr>"
    using assms(1) by (simp add: map_of_set_entry)
  from get_hit[OF this] assms(2) show ?thesis by simp
qed

lemma length_update:
  "length (AList.update k v al) = (if k \<in> fst ` set al then length al else Suc (length al))"
  by (induction al) auto

lemma map_of_filter_valid:
  assumes "distinct (map fst c)"
  shows "map_of (filter (\<lambda>(key, entry). now < expiresAt entry) c) k =
           (case map_of c k of None \<Rightarrow> None
            | Some e \<Rightarrow> if now < expiresAt e then Some e else None)"
  using assms
proof (induction c)
  case Nil
  then show ?case by simp
next
  case (Cons p c)
  obtain key entry where p: "p = (key, entry)" by (cases p)
  show ?case
  proof (cases "k = key")
    case True
    with Cons.prems p have "k \<notin> fst ` set c" by auto
    then have "k \<notin> fst ` set (filter (\<lambda>(key, entry). now < expiresAt entry) c)" by auto
    then have "map_of (filter (\<lambda>(key, entry). now < expiresAt entry) c) k = None"
      by (simp add: map_of_eq_None_iff)
    with True p show ?thesis by simp
  next
    case False
    with Cons p show ?thesis by simp
  qed
qed

lemma map_of_exec:
  "\<not> is_set_for key x \<Longrightarrow>
   map_of (exec x c) key = None \<or> map_of (exec x c) key = map_of c key"
proof (cases x)
  case (Get type loc now)
  then show ?thesis
    by (cases "key = generateKey type loc")
       (auto simp: get_def Let_def delete_conv' split: option.splits)
next
  case (Set type loc d t1 t2)
  assume "\<not> is_set_for key x"
  with Set show ?thesis by (simp add: map_of_set_entry)
next
  case (Cleanup now)
  then show ?thesis using map_of_cleanup_loop[of now c c key] by (simp add: cleanup_def)
next
  case Clear
  then show ?thesis by (simp add: clear_def)
next
  case (GetStats now)
  then show ?thesis by (simp add: getStats_eq)
qed

lemma map_of_run:
  "\<forall>x \<in> set calls. \<not> is_set_for key x \<Longrightarrow>
   map_of (run calls c) key = None \<or> map_of (run calls c) key = map_of c key"
proof (induction calls arbitrary: c)
  case Nil
  then show ?case by simp
next
  case (Cons x calls)
  from Cons.prems have "\<not> is_set_for key x" by simp
  from map_of_exec[OF this, of c] Cons.IH[of "exec x c"] Cons.prems
  show ?case by auto
qed

section \<open>Properties of the cache\<close>

text \<open>
  Claim C1. Every time to live is positive, and a \<open>get\<close> issued at the very instant
  \<open>now\<close> at which \<open>set\<close> stamped the entry returns the stored data, whatever the
  kind, the location, the data and the cache before; the \<open>get\<close> may spell kind and
  location differently as long as it derives the same key.
\<close>

theorem set_get_roundtrip:
  assumes "generateKey type' loc' = generateKey type loc"
  shows "0 < getTTL type \<and>
         fst (get type' loc' now (set_entry type loc d now now c)) = d"
proof -
  have "now < now + getTTL type" using getTTL_pos[of type] by simp
  from get_after_set[OF assms this, of d now c] show ?thesis by (simp add: getTTL_pos)
qed

theorem set_get_roundtrip_witness:
  "generateKey ''weather'' \<lparr>city = ''LAGOS'', country = ''ng''\<rparr> =
     generateKey ''weather'' \<lparr>city = ''Lagos'', country = ''NG''\<rparr> \<and>
   fst (get ''weather'' \<lparr>city = ''LAGOS'', country = ''ng''\<rparr> 1000
          (set_entry ''weather'' \<lparr>city = ''Lagos'', country = ''NG''\<rparr> (Some (21::int)) 1000 1000 []))
     = Some 21"
proof -
  have h: "generateKey ''weather'' \<lparr>city = ''LAGOS'', country = ''ng''\<rparr> =
           generateKey ''weather'' \<lparr>city = ''Lagos'', country = ''NG''\<rparr>"
    by code_simp
  from set_get_roundtrip[OF h, of 1000 "Some (21::int)" "[]"] h show ?thesis by simp
qed

text \<open>
  Claim C2. \<open>get\<close> returns \<open>null\<close> exactly when the derived key has no entry, or the
  entry's \<open>expiresAt\<close> is not after \<open>now\<close>, or the entry is valid and its stored data is
  itself \<open>null\<close>. On an expired entry \<open>get\<close> returns \<open>null\<close>, the key has no entry
  afterwards and, the cache being a \<open>Map\<close>, \<open>totalEntries\<close> of \<open>getStats\<close> is one less
  than before the call. On an entry with \<open>now < expiresAt\<close> the stored data is returned as
  it is and the cache is left as it was.
\<close>

theorem get_absent_iff:
  "(fst (get type loc now c) = None \<longleftrightarrow>
      (case map_of c (generateKey type loc) of
         None \<Rightarrow> True
       | Some e \<Rightarrow> expiresAt e \<le> now \<or> data e = None)) \<and>
   (\<forall>e. map_of c (generateKey type loc) = Some e \<and> expiresAt e \<le> now \<longrightarrow>
      fst (get type loc now c) = None \<and>
      map_of (snd (get type loc now c)) (generateKey type loc) = None \<and>
      (wf_cache c \<longrightarrow>
         Suc (totalEntries (fst (getStats now (snd (get type loc now c))))) =
           totalEntries (fst (getStats now c)))) \<and>
   (\<forall>e. map_of c (generateKey type loc) = Some e \<and> now < expiresAt e \<longrightarrow>
      fst (get type loc now c) = data e \<and> snd (get type loc now c) = c)"
proof (intro conjI allI impI)
  show "fst (get type loc now c) = None \<longleftrightarrow>
      (case map_of c (generateKey type loc) of
         None \<Rightarrow> True
       | Some e \<Rightarrow> expiresAt e \<le> now \<or> data e = None)"
    by (auto simp: get_def Let_def isValid_def split: option.splits)
next
  fix e assume "map_of c (generateKey type loc) = Some e \<and> expiresAt e \<le> now"
  then show "fst (get type loc now c) = None"
    by (simp add: get_stale)
next
  fix e assume "map_of c (generateKey type loc) = Some e \<and> expiresAt e \<le> now"
  then show "map_of (snd (get type loc now c)) (generateKey type loc) = None"
    by (simp add: get_stale delete_conv')
next
  fix e assume a: "map_of c (generateKey type loc) = Some e \<and> expiresAt e \<le> now"
    and "wf_cache c"
  then have "Suc (length (AList.delete (generateKey type loc) c)) = length c"
    unfolding wf_cache_def by (intro length_delete_present[of c _ e]) simp_all
  with a show "Suc (totalEntries (fst (getStats now (snd (get type loc now c))))) =
           totalEntries (fst (getStats now c))"
    by (simp add: get_stale totalEntries_getStats)
next
  fix e assume "map_of c (generateKey type loc) = Some e \<and> now < expiresAt e"
  then show "fst (get type loc now c) = data e"
    by (simp add: get_hit)
next
  fix e assume "map_of c (generateKey type loc) = Some e \<and> now < expiresAt e"
  then show "snd (get type loc now c) = c"
    by (simp add: get_hit)
qed

theorem get_absent_iff_witness:
  "fst (get ''satellite'' \<lparr>city = ''Lagos'', country = ''NG''\<rparr> 3599999
         (set_entry ''satellite'' \<lparr>city = ''Lagos'', country = ''NG''\<rparr> (Some ''clear'') 0 0 []))
     = Some ''clear'' \<and>
   fst (get ''satellite'' \<lparr>city = ''Lagos'', country = ''NG''\<rparr> 3600001
         (set_entry ''satellite'' \<lparr>city = ''Lagos'', country = ''NG''\<rparr> (Some ''clear'') 0 0 []))
     = None \<and>
   Suc (totalEntries (fst (getStats 3600001
         (snd (get ''satellite'' \<lparr>city = ''Lagos'', country = ''NG''\<rparr> 3600001
            (set_entry ''satellite'' \<lparr>city = ''Lagos'', country = ''NG''\<rparr> (Some ''clear'') 0 0 []))))))
     = totalEntries (fst (getStats 3600001
         (set_entry ''satellite'' \<lparr>city = ''Lagos'', country = ''NG''\<rparr> (Some ''clear'') 0 0 [])))"
proof -
  let ?loc = "\<lparr>city = ''Lagos'', country = ''NG''\<rparr>"
  let ?c = "set_entry ''satellite'' ?loc (Some ''clear'') 0 0 []"
  let ?e = "\<lparr>data = Some ''clear'', timestamp = 0, expiresAt = 3600000\<rparr>"
  have m: "map_of ?c (generateKey ''satellite'' ?loc) = Some ?e"
    by (simp add: map_of_set_entry getTTL_values)
  have w: "wf_cache ?c"
    by (simp add: wf_cache_set_entry wf_cache_Nil)
  from get_absent_iff[of "''satellite''" ?loc 3599999 ?c] m
  have a: "fst (get ''satellite'' ?loc 3599999 ?c) = Some ''clear''" by simp
  from get_absent_iff[of "''satellite''" ?loc 3600001 ?c] m w
  have b: "fst (get ''satellite'' ?loc 3600001 ?c) = None \<and>
     Suc (totalEntries (fst (getStats 3600001 (snd (get ''satellite'' ?loc 3600001 ?c)))))
       = totalEntries (fst (getStats 3600001 ?c))" by simp
  from a b show ?thesis by simp
qed

text \<open>
  Without the case of a stored \<open>null\<close> the equivalence fails: after
  \<open>set('weather', {city: 'A', country: 'x'}, null)\<close> at time 0 the key has an entry that
  expires at 600000, and \<open>get\<close> at time 1 hits it and returns its data, which is
  \<open>null\<close>.
\<close>

theorem get_null_payload_counterexample:
  "map_of (set_entry ''weather'' \<lparr>city = ''A'', country = ''x''\<rparr> (None :: nat option) 0 0 [])
      (generateKey ''weather'' \<lparr>city = ''A'', country = ''x''\<rparr>) =
     Some \<lparr>data = None, timestamp = 0, expiresAt = 600000\<rparr> \<and>
   (1 :: int) < 600000 \<and>
   fst (get ''weather'' \<lparr>city = ''A'', country = ''x''\<rparr> 1
          (set_entry ''weather'' \<lparr>city = ''A'', country = ''x''\<rparr> (None :: nat option) 0 0 []))
     = None"
proof -
  let ?loc = "\<lparr>city = ''A'', country = ''x''\<rparr>"
  let ?c = "set_entry ''weather'' ?loc (None :: nat option) 0 0 []"
  have m: "map_of ?c (generateKey ''weather'' ?loc) =
             Some \<lparr>data = None, timestamp = 0, expiresAt = 600000\<rparr>"
    by (simp add: map_of_set_entry getTTL_values)
  from get_hit[OF m, of 1] have "fst (get ''weather'' ?loc 1 ?c) = None" by simp
  with m show ?thesis by simp
qed

text \<open>
  Claim C3. The key is a function of its inputs that ignores case and collapses every run
  of white space to one underscore.
  \<^item> Inputs whose components agree after lower-casing derive the same key, and lower-casing
    sends an upper-case letter \<open>A .. Z\<close> and its lower-case partner to that partner.
  \<^item> In the kind, in the city or in the country, alone or in all three at once, a
    white-space run can be replaced by any other white-space run without changing the key.
  \<^item> In each component a white-space run that cannot be extended derives the same key as
    one underscore in its place.
  \<^item> On components without white space the key is the lower-cased kind, city and country
    joined by underscores; and no key contains white space.
  \<^item> Kind \<open>weather\<close> with city \<open>new   york\<close>, country \<open>us\<close> and with city \<open>New York\<close>,
    country \<open>US\<close> both derive \<open>weather_new_york_us\<close>, and city \<open>rio  de janeiro\<close>,
    country \<open>br\<close> derives \<open>weather_rio_de_janeiro_br\<close>. For every kind, data and cache a
    \<open>set\<close> under the first New York spelling followed at the same instant by a \<open>get\<close>
    under the second returns the data, and for every kind and country the cities
    \<open>New York City\<close> and \<open>New York\<close> derive different keys.
\<close>

theorem generateKey_normalises:
  "(toLowerCase type1 = toLowerCase type2 \<and> toLowerCase (city l1) = toLowerCase (city l2) \<and>
    toLowerCase (country l1) = toLowerCase (country l2) \<longrightarrow>
      generateKey type1 l1 = generateKey type2 l2) \<and>
   (65 \<le> n \<and> n \<le> 90 \<longrightarrow>
      toLowerCase_char (char_of (n::nat)) = char_of (n + 32) \<and>
      toLowerCase_char (char_of (n + 32)) = char_of (n + 32)) \<and>
   (whitespace_run ws \<and> whitespace_run vs \<longrightarrow>
      generateKey (a @ ws @ b) loc = generateKey (a @ vs @ b) loc \<and>
      generateKey type \<lparr>city = a @ ws @ b, country = co\<rparr> =
        generateKey type \<lparr>city = a @ vs @ b, country = co\<rparr> \<and>
      generateKey type \<lparr>city = ci, country = a @ ws @ b\<rparr> =
        generateKey type \<lparr>city = ci, country = a @ vs @ b\<rparr>) \<and>
   (whitespace_run ws1 \<and> whitespace_run vs1 \<and> whitespace_run ws2 \<and> whitespace_run vs2 \<and>
    whitespace_run ws3 \<and> whitespace_run vs3 \<longrightarrow>
      generateKey (a1 @ ws1 @ b1) \<lparr>city = a2 @ ws2 @ b2, country = a3 @ ws3 @ b3\<rparr> =
      generateKey (a1 @ vs1 @ b1) \<lparr>city = a2 @ vs2 @ b2, country = a3 @ vs3 @ b3\<rparr>) \<and>
   (whitespace_run ws \<and> run_is_maximal a b \<longrightarrow>
      generateKey (a @ ws @ b) loc = generateKey (a @ ''_'' @ b) loc \<and>
      generateKey type \<lparr>city = a @ ws @ b, country = co\<rparr> =
        generateKey type \<lparr>city = a @ ''_'' @ b, country = co\<rparr> \<and>
      generateKey type \<lparr>city = ci, country = a @ ws @ b\<rparr> =
        generateKey type \<lparr>city = ci, country = a @ ''_'' @ b\<rparr>) \<and>
   (no_whitespace type \<and> no_whitespace (city loc) \<and> no_whitespace (country loc) \<longrightarrow>
      generateKey type loc =
        toLowerCase type @ ''_'' @ toLowerCase (city loc) @ ''_'' @ toLowerCase (country loc)) \<and>
   (\<forall>ch \<in> set (generateKey type loc). \<not> isWhiteSpace ch) \<and>
   generateKey ''weather'' \<lparr>city = ''new   york'', country = ''us''\<rparr> = ''weather_new_york_us'' \<and>
   generateKey ''weather'' \<lparr>city = ''New York'', country = ''US''\<rparr> = ''weather_new_york_us'' \<and>
   generateKey ''weather'' \<lparr>city = ''rio  de janeiro'', country = ''br''\<rparr> =
     ''weather_rio_de_janeiro_br'' \<and>
   generateKey type \<lparr>city = ''new   york'', country = ''us''\<rparr> =
     generateKey type \<lparr>city = ''New York'', country = ''US''\<rparr> \<and>
   fst (get type \<lparr>city = ''New York'', country = ''US''\<rparr> now
          (set_entry type \<lparr>city = ''new   york'', country = ''us''\<rparr> d now now c)) = d \<and>
   generateKey type \<lparr>city = ''New York City'', country = co\<rparr> \<noteq>
     generateKey type \<lparr>city = ''New York'', country = co\<rparr>"
proof (intro conjI impI)
  assume "toLowerCase type1 = toLowerCase type2 \<and> toLowerCase (city l1) = toLowerCase (city l2) \<and>
    toLowerCase (country l1) = toLowerCase (country l2)"
  then show "generateKey type1 l1 = generateKey type2 l2"
    by (simp add: generateKey_split)
next
  assume "65 \<le> n \<and> n \<le> 90"
  then show "toLowerCase_char (char_of n) = char_of (n + 32)"
    by (simp add: ascii_letter_lower)
next
  assume "65 \<le> n \<and> n \<le> 90"
  then show "toLowerCase_char (char_of (n + 32)) = char_of (n + 32)"
    by (simp add: ascii_letter_lower)
next
  assume r: "whitespace_run ws \<and> whitespace_run vs"
  then have e: "replace_ws (toLowerCase (a @ ws @ b)) = replace_ws (toLowerCase (a @ vs @ b))"
    by (intro normalise_run) simp_all
  show "generateKey (a @ ws @ b) loc = generateKey (a @ vs @ b) loc"
    using e by (simp only: generateKey_split)
  show "generateKey type \<lparr>city = a @ ws @ b, country = co\<rparr> =
        generateKey type \<lparr>city = a @ vs @ b, country = co\<rparr>"
    using e by (simp only: generateKey_split location.simps)
  show "generateKey type \<lparr>city = ci, country = a @ ws @ b\<rparr> =
        generateKey type \<lparr>city = ci, country = a @ vs @ b\<rparr>"
    using e by (simp only: generateKey_split location.simps)
next
  assume "whitespace_run ws1 \<and> whitespace_run vs1 \<and> whitespace_run ws2 \<and> whitespace_run vs2 \<and>
    whitespace_run ws3 \<and> whitespace_run vs3"
  then show "generateKey (a1 @ ws1 @ b1) \<lparr>city = a2 @ ws2 @ b2, country = a3 @ ws3 @ b3\<rparr> =
      generateKey (a1 @ vs1 @ b1) \<lparr>city = a2 @ vs2 @ b2, country = a3 @ vs3 @ b3\<rparr>"
    using normalise_run[of ws1 vs1 a1 b1] normalise_run[of ws2 vs2 a2 b2]
      normalise_run[of ws3 vs3 a3 b3]
    by (simp add: generateKey_split)
next
  assume r: "whitespace_run ws \<and> run_is_maximal a b"
  then have e: "replace_ws (toLowerCase (a @ ws @ b)) = replace_ws (toLowerCase (a @ ''_'' @ b))"
    by (intro normalise_maximal_run) simp_all
  show "generateKey (a @ ws @ b) loc = generateKey (a @ ''_'' @ b) loc"
    using e by (simp only: generateKey_split)
  show "generateKey type \<lparr>city = a @ ws @ b, country = co\<rparr> =
        generateKey type \<lparr>city = a @ ''_'' @ b, country = co\<rparr>"
    using e by (simp only: generateKey_split location.simps)
  show "generateKey type \<lparr>city = ci, country = a @ ws @ b\<rparr> =
        generateKey type \<lparr>city = ci, country = a @ ''_'' @ b\<rparr>"
    using e by (simp only: generateKey_split location.simps)
next
  assume "no_whitespace type \<and> no_whitespace (city loc) \<and> no_whitespace (country loc)"
  then show "generateKey type loc =
        toLowerCase type @ ''_'' @ toLowerCase (city loc) @ ''_'' @ toLowerCase (country loc)"
    by (simp add: generateKey_no_whitespace)
next
  show "\<forall>ch \<in> set (generateKey type loc). \<not> isWhiteSpace ch"
    by (simp add: generateKey_def replace_ws_no_space)
next
  show "generateKey ''weather'' \<lparr>city = ''new   york'', country = ''us''\<rparr> = ''weather_new_york_us''"
    by code_simp
next
  show "generateKey ''weather'' \<lparr>city = ''New York'', country = ''US''\<rparr> = ''weather_new_york_us''"
    by code_simp
next
  show "generateKey ''weather'' \<lparr>city = ''rio  de janeiro'', country = ''br''\<rparr> =
     ''weather_rio_de_janeiro_br''"
    by code_simp
next
  show k: "generateKey type \<lparr>city = ''new   york'', country = ''us''\<rparr> =
     generateKey type \<lparr>city = ''New York'', country = ''US''\<rparr>"
    by (simp only: generateKey_split location.simps norm_examples)
  have "now < now + getTTL type" using getTTL_pos[of type] by simp
  from get_after_set[OF k[symmetric] this, of d now c]
  show "fst (get type \<lparr>city = ''New York'', country = ''US''\<rparr> now
          (set_entry type \<lparr>city = ''new   york'', country = ''us''\<rparr> d now now c)) = d"
    by simp
next
  show "generateKey type \<lparr>city = ''New York City'', country = co\<rparr> \<noteq>
     generateKey type \<lparr>city = ''New York'', country = co\<rparr>"
  proof
    assume "generateKey type \<lparr>city = ''New York City'', country = co\<rparr> =
     generateKey type \<lparr>city = ''New York'', country = co\<rparr>"
    then have "length (generateKey type \<lparr>city = ''New York City'', country = co\<rparr>) =
       length (generateKey type \<lparr>city = ''New York'', country = co\<rparr>)" by simp
    then show False
      by (simp only: generateKey_split location.simps norm_examples) simp
  qed
qed

theorem generateKey_normalises_witness:
  "generateKey ''Weather'' \<lparr>city = ''RIO  de Janeiro'', country = ''br''\<rparr> =
     generateKey ''WEATHER'' \<lparr>city = ''rio  DE janeiro'', country = ''BR''\<rparr> \<and>
   toLowerCase_char (char_of (78::nat)) = char_of (78 + 32 :: nat) \<and>
   generateKey ''weather'' \<lparr>city = ''rio'' @ [CHR 0x09, CHR 0xA0] @ ''de'', country = ''br''\<rparr> =
     generateKey ''weather'' \<lparr>city = ''rio'' @ ''  '' @ ''de'', country = ''br''\<rparr> \<and>
   generateKey (''critical'' @ '' '' @ ''issues'')
       \<lparr>city = ''new'' @ ''   '' @ ''york'', country = ''u'' @ [CHR 0x09] @ ''s''\<rparr> =
     generateKey (''critical'' @ [CHR 0x0A, CHR 0xA0] @ ''issues'')
       \<lparr>city = ''new'' @ '' '' @ ''york'', country = ''u'' @ ''  '' @ ''s''\<rparr> \<and>
   generateKey ''weather'' \<lparr>city = ''rio'' @ [CHR 0x09, CHR 0xA0] @ ''de'', country = ''br''\<rparr> =
     generateKey ''weather'' \<lparr>city = ''rio'' @ ''_'' @ ''de'', country = ''br''\<rparr> \<and>
   generateKey ''weather'' \<lparr>city = ''Oslo'', country = ''NO''\<rparr> =
     toLowerCase ''weather'' @ ''_'' @ toLowerCase ''Oslo'' @ ''_'' @ toLowerCase ''NO'' \<and>
   list_all (\<lambda>ch. \<not> isWhiteSpace ch)
     (generateKey ''weather'' \<lparr>city = ''Oslo'', country = ''NO''\<rparr>)"
proof -
  have h1: "toLowerCase ''Weather'' = toLowerCase ''WEATHER'' \<and>
       toLowerCase (city \<lparr>city = ''RIO  de Janeiro'', country = ''br''\<rparr>) =
       toLowerCase (city \<lparr>city = ''rio  DE janeiro'', country = ''BR''\<rparr>) \<and>
       toLowerCase (country \<lparr>city = ''RIO  de Janeiro'', country = ''br''\<rparr>) =
       toLowerCase (country \<lparr>city = ''rio  DE janeiro'', country = ''BR''\<rparr>)"
    by code_simp
  have h2: "65 \<le> (78::nat) \<and> (78::nat) \<le> 90" by simp
  have h3: "whitespace_run [CHR 0x09, CHR 0xA0] \<and> whitespace_run ''  ''"
    by (simp add: whitespace_run_def isWhiteSpace_def)
  have h4: "whitespace_run '' '' \<and> whitespace_run [CHR 0x0A, CHR 0xA0] \<and>
            whitespace_run ''   '' \<and> whitespace_run '' '' \<and>
            whitespace_run [CHR 0x09] \<and> whitespace_run ''  ''"
    by (simp add: whitespace_run_def isWhiteSpace_def)
  have h5: "whitespace_run [CHR 0x09, CHR 0xA0] \<and> run_is_maximal ''rio'' ''de''"
    by (simp add: whitespace_run_def run_is_maximal_def isWhiteSpace_def)
  have h6: "no_whitespace ''weather'' \<and>
            no_whitespace (city \<lparr>city = ''Oslo'', country = ''NO''\<rparr>) \<and>
            no_whitespace (country \<lparr>city = ''Oslo'', country = ''NO''\<rparr>)"
    by (simp add: no_whitespace_def isWhiteSpace_def)
  note T = generateKey_normalises[where
      ?type1.0 = "''Weather''" and ?type2.0 = "''WEATHER''" and
      ?l1.0 = "\<lparr>city = ''RIO  de Janeiro'', country = ''br''\<rparr>" and
      ?l2.0 = "\<lparr>city = ''rio  DE janeiro'', country = ''BR''\<rparr>" and
      n = 78 and ws = "[CHR 0x09, CHR 0xA0]" and vs = "''  ''" and a = "''rio''" and b = "''de''" and
      type = "''weather''" and co = "''br''" and ci = "''rio''" and
      loc = "\<lparr>city = ''Oslo'', country = ''NO''\<rparr>" and
      ?ws1.0 = "'' ''" and ?vs1.0 = "[CHR 0x0A, CHR 0xA0]" and ?ws2.0 = "''   ''" and
      ?vs2.0 = "'' ''" and ?ws3.0 = "[CHR 0x09]" and ?vs3.0 = "''  ''" and
      ?a1.0 = "''critical''" and ?b1.0 = "''issues''" and ?a2.0 = "''new''" and
      ?b2.0 = "''york''" and ?a3.0 = "''u''" and ?b3.0 = "''s''" and
      now = 0 and d = "Some ()" and c = "[]"]
  from T h1 have c1: "generateKey ''Weather'' \<lparr>city = ''RIO  de Janeiro'', country = ''br''\<rparr> =
     generateKey ''WEATHER'' \<lparr>city = ''rio  DE janeiro'', country = ''BR''\<rparr>"
    by blast
  from T h2 have c2: "toLowerCase_char (char_of (78::nat)) = char_of (78 + 32 :: nat)"
    by blast
  from T h3 have c3:
    "generateKey ''weather'' \<lparr>city = ''rio'' @ [CHR 0x09, CHR 0xA0] @ ''de'', country = ''br''\<rparr> =
     generateKey ''weather'' \<lparr>city = ''rio'' @ ''  '' @ ''de'', country = ''br''\<rparr>"
    by blast
  from T h4 have c4: "generateKey (''critical'' @ '' '' @ ''issues'')
       \<lparr>city = ''new'' @ ''   '' @ ''york'', country = ''u'' @ [CHR 0x09] @ ''s''\<rparr> =
     generateKey (''critical'' @ [CHR 0x0A, CHR 0xA0] @ ''issues'')
       \<lparr>city = ''new'' @ '' '' @ ''york'', country = ''u'' @ ''  '' @ ''s''\<rparr>"
    by blast
  from T h5 have c5:
    "generateKey ''weather'' \<lparr>city = ''rio'' @ [CHR 0x09, CHR 0xA0] @ ''de'', country = ''br''\<rparr> =
     generateKey ''weather'' \<lparr>city = ''rio'' @ ''_'' @ ''de'', country = ''br''\<rparr>"
    by blast
  from T h6 have c6: "generateKey ''weather'' \<lparr>city = ''Oslo'', country = ''NO''\<rparr> =
     toLowerCase ''weather'' @ ''_'' @ toLowerCase (city \<lparr>city = ''Oslo'', country = ''NO''\<rparr>) @
     ''_'' @ toLowerCase (country \<lparr>city = ''Oslo'', country = ''NO''\<rparr>)"
    by blast
  then have c6': "generateKey ''weather'' \<lparr>city = ''Oslo'', country = ''NO''\<rparr> =
     toLowerCase ''weather'' @ ''_'' @ toLowerCase ''Oslo'' @ ''_'' @ toLowerCase ''NO''"
    by (simp only: location.simps)
  from T have "\<forall>ch \<in> set (generateKey ''weather'' \<lparr>city = ''Oslo'', country = ''NO''\<rparr>).
      \<not> isWhiteSpace ch"
    by blast
  then have c7: "list_all (\<lambda>ch. \<not> isWhiteSpace ch)
     (generateKey ''weather'' \<lparr>city = ''Oslo'', country = ''NO''\<rparr>)"
    by (simp only: list_all_iff)
  from c1 c2 c3 c4 c5 c6' c7 show ?thesis by blast
qed

text \<open>
  Claim C4. The time to live is a function of the kind string alone: 10 minutes for
  \<open>weather\<close>, 30 for \<open>news\<close>, 60 for \<open>satellite\<close>, 15 for \<open>criticalIssues\<close>, 5 for
  \<open>environmental_data\<close> and 5 for every other kind. The entry \<open>set\<close> writes has the
  first clock reading as \<open>timestamp\<close> and the second clock reading plus the time to live
  of the kind as \<open>expiresAt\<close>, so \<open>expiresAt = timestamp + ttl\<close> holds exactly when the
  two readings agree. When the clock ticks between them it fails: with the readings 1000
  and 1001 a \<open>weather\<close> entry gets \<open>timestamp\<close> 1000 and \<open>expiresAt\<close> 601001, not
  601000.
\<close>

theorem set_entry_stamps:
  "getTTL type =
     (if type = ''weather'' then 10 * 60 * 1000
      else if type = ''news'' then 30 * 60 * 1000
      else if type = ''satellite'' then 60 * 60 * 1000
      else if type = ''criticalIssues'' then 15 * 60 * 1000
      else if type = ''environmental_data'' then 5 * 60 * 1000
      else 5 * 60 * 1000) \<and>
   map_of (set_entry type loc d t_stamp t_exp c) (generateKey type loc) =
     Some \<lparr> data = d, timestamp = t_stamp, expiresAt = t_exp + getTTL type \<rparr> \<and>
   ((t_exp + getTTL type = t_stamp + getTTL type) = (t_exp = t_stamp)) \<and>
   map_of (set_entry ''weather'' \<lparr>city = ''Lagos'', country = ''NG''\<rparr> (Some ''sunny'') 1000 1001 [])
      (generateKey ''weather'' \<lparr>city = ''Lagos'', country = ''NG''\<rparr>) =
     Some \<lparr> data = Some ''sunny'', timestamp = 1000, expiresAt = 601001 \<rparr> \<and>
   (601001 :: int) \<noteq> 1000 + getTTL ''weather''"
proof -
  have "getTTL type =
     (if type = ''weather'' then 10 * 60 * 1000
      else if type = ''news'' then 30 * 60 * 1000
      else if type = ''satellite'' then 60 * 60 * 1000
      else if type = ''criticalIssues'' then 15 * 60 * 1000
      else if type = ''environmental_data'' then 5 * 60 * 1000
      else 5 * 60 * 1000)"
    by (simp add: getTTL_def config_def)
  moreover have "map_of (set_entry type loc d t_stamp t_exp c) (generateKey type loc) =
     Some \<lparr> data = d, timestamp = t_stamp, expiresAt = t_exp + getTTL type \<rparr>"
    by (simp add: map_of_set_entry)
  moreover have "(t_exp + getTTL type = t_stamp + getTTL type) = (t_exp = t_stamp)"
    by simp
  moreover have "map_of
      (set_entry ''weather'' \<lparr>city = ''Lagos'', country = ''NG''\<rparr> (Some ''sunny'') 1000 1001 [])
      (generateKey ''weather'' \<lparr>city = ''Lagos'', country = ''NG''\<rparr>) =
     Some \<lparr> data = Some ''sunny'', timestamp = 1000, expiresAt = 601001 \<rparr>"
    by (simp add: map_of_set_entry getTTL_values)
  moreover have "(601001 :: int) \<noteq> 1000 + getTTL ''weather''"
    by (simp add: getTTL_values)
  ultimately show ?thesis by blast
qed

text \<open>
  Claim C5. On a \<open>Map\<close>, \<open>cleanup\<close> keeps exactly the entries with
  \<open>now < expiresAt\<close>, in their order and with every field as it was, and deletes those
  with \<open>expiresAt \<le> now\<close>; looked up by key, an entry survives unchanged if it is valid
  and is absent otherwise. A second \<open>cleanup\<close> at the same instant changes nothing.
\<close>

theorem cleanup_exact:
  assumes "wf_cache c"
  shows "cleanup now c = filter (\<lambda>(key, entry). now < expiresAt entry) c \<and>
         (\<forall>key. map_of (cleanup now c) key =
            (case map_of c key of None \<Rightarrow> None
             | Some e \<Rightarrow> if now < expiresAt e then Some e else None)) \<and>
         cleanup now (cleanup now c) = cleanup now c"
proof -
  have f: "cleanup now c = filter (\<lambda>(key, entry). now < expiresAt entry) c"
    using assms by (rule cleanup_filter)
  have m: "\<forall>key. map_of (cleanup now c) key =
            (case map_of c key of None \<Rightarrow> None
             | Some e \<Rightarrow> if now < expiresAt e then Some e else None)"
    unfolding f using assms by (simp add: wf_cache_def map_of_filter_valid)
  have "cleanup now (cleanup now c) =
          filter (\<lambda>(key, entry). now < expiresAt entry) (cleanup now c)"
    using wf_cache_cleanup[OF assms] by (rule cleanup_filter)
  then have i: "cleanup now (cleanup now c) = cleanup now c"
    unfolding f by simp
  from f m i show ?thesis by blast
qed

theorem cleanup_exact_witness:
  "cleanup 100
     [(''weather_oslo_no'', \<lparr>data = Some ''a'', timestamp = 0, expiresAt = 100\<rparr>),
      (''news_oslo_no'', \<lparr>data = Some ''b'', timestamp = 1, expiresAt = 101\<rparr>),
      (''satellite_oslo_no'', \<lparr>data = Some ''c'', timestamp = 2, expiresAt = 50\<rparr>)]
   = [(''news_oslo_no'', \<lparr>data = Some ''b'', timestamp = 1, expiresAt = 101\<rparr>)]"
proof -
  let ?c = "[(''weather_oslo_no'', \<lparr>data = Some ''a'', timestamp = 0, expiresAt = 100\<rparr>),
      (''news_oslo_no'', \<lparr>data = Some ''b'', timestamp = 1, expiresAt = 101\<rparr>),
      (''satellite_oslo_no'', \<lparr>data = Some ''c'', timestamp = 2, expiresAt = 50\<rparr>)]"
  have w: "wf_cache ?c" by (simp add: wf_cache_def)
  from cleanup_exact[OF w, of 100] show ?thesis by simp
qed

text \<open>
  Claim C6. After two \<open>set\<close> calls that derive the same key, the key holds the data of
  the second call with the \<open>timestamp\<close> and \<open>expiresAt\<close> stamped by the second call, and
  the second call has added no entry. A \<open>get\<close> on that key returns the second data while
  the second entry is valid (in particular at the instant it was stamped) and \<open>null\<close>
  afterwards: never the first data.
\<close>

theorem set_overwrites:
  assumes "generateKey type2 loc2 = generateKey type1 loc1"
      and "generateKey type3 loc3 = generateKey type1 loc1"
  shows "map_of (set_entry type2 loc2 d2 t3 t4 (set_entry type1 loc1 d1 t1 t2 c))
           (generateKey type1 loc1)
           = Some \<lparr> data = d2, timestamp = t3, expiresAt = t4 + getTTL type2 \<rparr> \<and>
         fst (get type3 loc3 now (set_entry type2 loc2 d2 t3 t4 (set_entry type1 loc1 d1 t1 t2 c)))
           = (if now < t4 + getTTL type2 then d2 else None) \<and>
         fst (get type3 loc3 t4 (set_entry type2 loc2 d2 t3 t4 (set_entry type1 loc1 d1 t1 t2 c)))
           = d2 \<and>
         length (set_entry type2 loc2 d2 t3 t4 (set_entry type1 loc1 d1 t1 t2 c))
           = length (set_entry type1 loc1 d1 t1 t2 c)"
proof -
  let ?c1 = "set_entry type1 loc1 d1 t1 t2 c"
  let ?c2 = "set_entry type2 loc2 d2 t3 t4 ?c1"
  let ?e = "\<lparr> data = d2, timestamp = t3, expiresAt = t4 + getTTL type2 \<rparr>"
  have m: "map_of ?c2 (generateKey type1 loc1) = Some ?e"
    using assms(1) by (simp add: map_of_set_entry)
  then have m3: "map_of ?c2 (generateKey type3 loc3) = Some ?e"
    using assms(2) by simp
  have g: "fst (get type3 loc3 t ?c2) = (if t < t4 + getTTL type2 then d2 else None)" for t
  proof (cases "t < t4 + getTTL type2")
    case True
    with get_hit[OF m3, of t] show ?thesis by simp
  next
    case False
    with get_stale[OF m3, of t] show ?thesis by simp
  qed
  have "generateKey type1 loc1 \<in> fst ` set ?c1"
    by (simp add: set_entry_def Let_def dom_update)
  then have l: "length ?c2 = length ?c1"
    using assms(1) by (simp add: set_entry_def[of type2] Let_def length_update)
  from m g[of now] g[of t4] l getTTL_pos[of type2] show ?thesis by simp
qed

theorem set_overwrites_witness:
  "fst (get ''news'' \<lparr>city = ''Paris'', country = ''FR''\<rparr> 50
     (set_entry ''news'' \<lparr>city = ''Paris'', country = ''FR''\<rparr> (Some ''second'') 40 40
       (set_entry ''news'' \<lparr>city = ''Paris'', country = ''FR''\<rparr> (Some ''first'') 10 10 [])))
   = Some ''second'' \<and>
   length (set_entry ''news'' \<lparr>city = ''Paris'', country = ''FR''\<rparr> (Some ''second'') 40 40
       (set_entry ''news'' \<lparr>city = ''Paris'', country = ''FR''\<rparr> (Some ''first'') 10 10 [])) = 1"
proof -
  let ?loc = "\<lparr>city = ''Paris'', country = ''FR''\<rparr>"
  have l: "length (set_entry ''news'' ?loc (Some ''first'') 10 10 []) = 1"
    by (simp add: set_entry_def)
  from set_overwrites[OF refl refl, of "''news''" ?loc "Some ''second''" 40 40 "Some ''first''" 10 10 "[]" 50] l
  show ?thesis by (simp add: getTTL_values)
qed

text \<open>
  Claim C7. After \<open>clear\<close> every \<open>get\<close> returns \<open>null\<close> and leaves the cache empty,
  and \<open>getStats\<close> reports zero total, valid and expired entries.
\<close>

theorem clear_empties:
  "fst (get type loc now (clear c)) = None \<and>
   snd (get type loc now (clear c)) = [] \<and>
   fst (getStats now (clear c)) = \<lparr> totalEntries = 0, validEntries = 0, expiredEntries = 0 \<rparr>"
  by (simp add: clear_def get_def getStats_def)

text \<open>
  Claim C8. Key derivation is not injective. For every kind \<open>k\<close> the locations
  (city \<open>a b\<close>, country \<open>c\<close>) and (city \<open>a\<close>, country \<open>b c\<close>) derive the same key,
  which is \<open>k_a_b_c\<close> for the kind \<open>k\<close>; kind \<open>environmental\<close> with city
  \<open>data paris\<close> and kind \<open>environmental_data\<close> with city \<open>paris\<close> derive the same key
  for every country. In both cases a \<open>set\<close> under the first input is returned by a
  \<open>get\<close> under the second at the same instant.
\<close>

theorem generateKey_collisions:
  "generateKey k \<lparr>city = ''a b'', country = ''c''\<rparr> =
     generateKey k \<lparr>city = ''a'', country = ''b c''\<rparr> \<and>
   generateKey ''k'' \<lparr>city = ''a b'', country = ''c''\<rparr> = ''k_a_b_c'' \<and>
   generateKey ''k'' \<lparr>city = ''a'', country = ''b c''\<rparr> = ''k_a_b_c'' \<and>
   generateKey ''environmental'' \<lparr>city = ''data paris'', country = co\<rparr> =
     generateKey ''environmental_data'' \<lparr>city = ''paris'', country = co\<rparr> \<and>
   \<not> inj (\<lambda>(type, loc). generateKey type loc) \<and>
   fst (get k \<lparr>city = ''a'', country = ''b c''\<rparr> now
          (set_entry k \<lparr>city = ''a b'', country = ''c''\<rparr> d now now c)) = d \<and>
   fst (get ''environmental_data'' \<lparr>city = ''paris'', country = co\<rparr> now
          (set_entry ''environmental'' \<lparr>city = ''data paris'', country = co\<rparr> d now now c))
     = d"
proof -
  have e1: "generateKey k \<lparr>city = ''a b'', country = ''c''\<rparr> =
     generateKey k \<lparr>city = ''a'', country = ''b c''\<rparr>" for k
    by (simp only: generateKey_split location.simps norm_examples) simp
  have e2: "generateKey ''k'' \<lparr>city = ''a b'', country = ''c''\<rparr> = ''k_a_b_c''"
    by (simp only: generateKey_split location.simps norm_examples) simp
  have e3: "generateKey ''environmental'' \<lparr>city = ''data paris'', country = co\<rparr> =
     generateKey ''environmental_data'' \<lparr>city = ''paris'', country = co\<rparr>"
    by (simp only: generateKey_split location.simps norm_examples) simp
  have ni: "\<not> inj (\<lambda>(type, loc). generateKey type loc)"
  proof
    assume "inj (\<lambda>(type, loc). generateKey type loc)"
    then have "(''k'', \<lparr>city = ''a b'', country = ''c''\<rparr>) = (''k'', \<lparr>city = ''a'', country = ''b c''\<rparr>)"
      by (rule injD) (simp add: e1)
    then show False by simp
  qed
  have t: "now < now + getTTL ty" for ty using getTTL_pos[of ty] by simp
  have g1: "fst (get k \<lparr>city = ''a'', country = ''b c''\<rparr> now
          (set_entry k \<lparr>city = ''a b'', country = ''c''\<rparr> d now now c)) = d"
    using get_after_set[OF e1[of k, symmetric] t, of d now c] by simp
  have g2: "fst (get ''environmental_data'' \<lparr>city = ''paris'', country = co\<rparr> now
          (set_entry ''environmental'' \<lparr>city = ''data paris'', country = co\<rparr> d now now c))
     = d"
    using get_after_set[OF e3[symmetric] t, of d now c] by simp
  from e1[of k] e1[of "''k''"] e2 e3 ni g1 g2 show ?thesis by simp
qed

text \<open>
  Claim C9. Let the key have no valid entry at \<open>now0\<close> (it is stale or absent). After any
  sequence of \<open>get\<close>, \<open>set\<close>, \<open>cleanup\<close>, \<open>clear\<close> and \<open>getStats\<close> calls, on any
  keys and with any clock values, that contains no \<open>set\<close> deriving this key, the key has
  no valid entry at any instant \<open>now'\<close> not before \<open>now0\<close>. Of the clock only
  \<open>now0 \<le> now'\<close> is used, which a non-decreasing clock gives. So an entry becomes valid
  again only through a \<open>set\<close> for its key.
\<close>

theorem stale_stays_stale:
  assumes "\<not> valid_at key now0 c"
      and "now0 \<le> now'"
      and "\<forall>x \<in> set calls. \<not> is_set_for key x"
  shows "\<not> valid_at key now' (run calls c)"
proof -
  have "map_of (run calls c) key = None \<or> map_of (run calls c) key = map_of c key"
    using assms(3) by (rule map_of_run)
  then show ?thesis
  proof
    assume "map_of (run calls c) key = None"
    then show ?thesis by (simp add: valid_at_def)
  next
    assume "map_of (run calls c) key = map_of c key"
    with assms(1,2) show ?thesis
      by (auto simp: valid_at_def isValid_def split: option.splits)
  qed
qed

theorem stale_stays_stale_witness:
  "\<not> valid_at ''weather_oslo_no'' 600000
       (set_entry ''weather'' \<lparr>city = ''Oslo'', country = ''NO''\<rparr> (Some ''x'') 0 0 []) \<and>
   \<not> valid_at ''weather_oslo_no'' 600010
       (run [GetStats 600000,
             Set ''news'' \<lparr>city = ''Oslo'', country = ''NO''\<rparr> (Some ''n'') 600001 600001,
             Cleanup 600003,
             Get ''weather'' \<lparr>city = ''Oslo'', country = ''NO''\<rparr> 600004,
             Clear]
          (set_entry ''weather'' \<lparr>city = ''Oslo'', country = ''NO''\<rparr> (Some ''x'') 0 0 []))"
proof -
  have h1: "\<not> valid_at ''weather_oslo_no'' 600000
       (set_entry ''weather'' \<lparr>city = ''Oslo'', country = ''NO''\<rparr> (Some ''x'') 0 0 [])"
    by code_simp
  have h2: "(600000::int) \<le> 600010" by simp
  have h3: "\<forall>x \<in> set [GetStats 600000,
             Set ''news'' \<lparr>city = ''Oslo'', country = ''NO''\<rparr> (Some ''n'') 600001 600001,
             Cleanup 600003,
             Get ''weather'' \<lparr>city = ''Oslo'', country = ''NO''\<rparr> 600004,
             Clear]. \<not> is_set_for ''weather_oslo_no'' x"
    by code_simp
  from stale_stays_stale[OF h1 h2 h3] h1 show ?thesis by simp
qed

text \<open>
  Claim C10. A \<open>get\<close> that hits returns the cache as it was: no entry, field or key
  changes. \<open>getStats\<close> returns the cache as it was and its total is the sum of its valid
  and expired counts.
\<close>

theorem reads_do_not_mutate:
  "(\<forall>e. map_of c (generateKey type loc) = Some e \<and> now < expiresAt e \<longrightarrow>
      snd (get type loc now c) = c) \<and>
   snd (getStats now c) = c \<and>
   totalEntries (fst (getStats now c)) =
     validEntries (fst (getStats now c)) + expiredEntries (fst (getStats now c))"
proof (intro conjI allI impI)
  fix e assume "map_of c (generateKey type loc) = Some e \<and> now < expiresAt e"
  then show "snd (get type loc now c) = c" by (simp add: get_hit)
next
  show "snd (getStats now c) = c" by (simp add: getStats_eq)
next
  have "length (map snd c) =
          length (filter (\<lambda>e. now < expiresAt e) (map snd c)) +
          length (filter (\<lambda>e. \<not> now < expiresAt e) (map snd c))"
    by (rule sum_length_filter_compl[symmetric])
  then show "totalEntries (fst (getStats now c)) =
     validEntries (fst (getStats now c)) + expiredEntries (fst (getStats now c))"
    by (simp add: getStats_eq)
qed

theorem reads_do_not_mutate_witness:
  "snd (get ''weather'' \<lparr>city = ''Oslo'', country = ''NO''\<rparr> 7
         (set_entry ''weather'' \<lparr>city = ''Oslo'', country = ''NO''\<rparr> (Some ''sunny'') 5 5 []))
     = set_entry ''weather'' \<lparr>city = ''Oslo'', country = ''NO''\<rparr> (Some ''sunny'') 5 5 []"
proof -
  let ?loc = "\<lparr>city = ''Oslo'', country = ''NO''\<rparr>"
  let ?c = "set_entry ''weather'' ?loc (Some ''sunny'') 5 5 []"
  have m: "map_of ?c (generateKey ''weather'' ?loc) =
             Some \<lparr>data = Some ''sunny'', timestamp = 5, expiresAt = 600005\<rparr>"
    by (simp add: map_of_set_entry getTTL_values)
  from reads_do_not_mutate[of ?c "''weather''" ?loc 7] m show ?thesis by simp
qed

end
